theory Spec2Isabelle
  imports Main "HOL-Library.Sublist" "HOL-Library.Char_ord" "HOL-Library.List_Lexorder"
    "HOL-Library.AList"
begin

section \<open>Python strings\<close>

text \<open>
  A Python \<open>str\<close> is a sequence of code points. The model uses \<open>string\<close>, reading each
  \<open>char\<close> as one code point below 256 (the Latin-1 range), so \<open>length\<close> counts what
  Python's \<open>len\<close> counts on such strings. The order on strings is the lexicographic
  order of the code points, which is the order of Python's \<open>sorted\<close> on \<open>str\<close>.
\<close>

definition LBRACKET :: char where
  "LBRACKET = CHR ''[''"

definition RBRACKET :: char where
  "RBRACKET = CHR '']''"

text \<open>\<open>str.isspace\<close> on one code point below 256: TAB, LF, VT, FF, CR, the separators
  FS, GS, RS, US, the space, NEL and the no-break space.\<close>

definition py_isspace :: "char \<Rightarrow> bool" where
  "py_isspace c =
     (let n = (of_char c :: nat)
      in (9 \<le> n \<and> n \<le> 13) \<or> (28 \<le> n \<and> n \<le> 32) \<or> n = 133 \<or> n = 160)"

text \<open>\<open>s.strip()\<close>: whitespace removed at both ends.\<close>

definition py_strip :: "string \<Rightarrow> string" where
  "py_strip s = rev (dropWhile py_isspace (rev (dropWhile py_isspace s)))"



text \<open>
  \<open>s.replace(old, new)\<close>: the occurrences of \<open>old\<close> are found from the left and do not
  overlap; each is replaced by \<open>new\<close>. With an empty \<open>old\<close> Python puts \<open>new\<close> before
  every character and at the end.
\<close>

function replace_from :: "string \<Rightarrow> string \<Rightarrow> string \<Rightarrow> string" where
  "replace_from old new [] = []"
| "replace_from old new (c # cs) =
     (if old \<noteq> [] \<and> prefix old (c # cs)
      then new @ replace_from old new (drop (length old) (c # cs))
      else c # replace_from old new cs)"
  by pat_completeness auto
termination
  by (relation "measure (\<lambda>(old, new, s). length s)") auto

definition py_replace :: "string \<Rightarrow> string \<Rightarrow> string \<Rightarrow> string" where
  "py_replace s old new =
     (if old = [] then new @ concat (map (\<lambda>c. c # new) s) else replace_from old new s)"

text \<open>\<open>old in s\<close> on strings is the contiguous-substring test, \<^const>\<open>sublist\<close>.\<close>

section \<open>Filename sanitization (\<open>sanitize_filename\<close>, \<open>save_as_pdf\<close> lines 118 to 120)\<close>

definition invalid_chars :: string where
  "invalid_chars =
     [CHR ''<'', CHR ''>'', CHR '':'', CHR 0x22, CHR ''/'', CHR 0x5C, CHR ''|'', CHR ''?'',
      CHR ''*'']"

text \<open>The loop \<open>for char in invalid_chars: name = name.replace(char, "")\<close>, then
  \<open>name.strip()\<close>.\<close>

definition sanitize_filename :: "string \<Rightarrow> string" where
  "sanitize_filename name =
     py_strip (fold (\<lambda>char name. py_replace name [char] []) invalid_chars name)"

text \<open>\<open>safe_company = sanitize_filename(company_name) if company_name else "Unknown"\<close>:
  the test is the truth value of the name as it was passed in.\<close>

definition safe_company :: "string \<Rightarrow> string" where
  "safe_company company_name =
     (if company_name \<noteq> [] then sanitize_filename company_name else ''Unknown'')"

text \<open>\<open>pdf_name = f"CoverLetter_{safe_company}_{date_str}.pdf"\<close>.\<close>

definition pdf_name :: "string \<Rightarrow> string \<Rightarrow> string" where
  "pdf_name company date_str = ''CoverLetter_'' @ company @ ''_'' @ date_str @ ''.pdf''"

section \<open>The company name taken from the values (\<open>main\<close>, line 234)\<close>

text \<open>
  A \<open>dict\<close> keeps its keys in insertion order, and \<open>values.items()\<close> walks them in that
  order; the model is an association list whose store operation is \<^const>\<open>AList.update\<close>
  (an existing key keeps its place, a new key goes to the end). \<open>values.get(k)\<close> is
  \<^const>\<open>map_of\<close>, with \<open>None\<close> for a missing key.
\<close>

type_synonym value_set = "(string \<times> string) list"

text \<open>\<open>a or b\<close> where \<open>a\<close> is \<open>None\<close> or a string: \<open>a\<close> when it is a non-empty string,
  else \<open>b\<close>.\<close>

definition py_or :: "string option \<Rightarrow> string option \<Rightarrow> string option" where
  "py_or a b = (case a of None \<Rightarrow> b | Some s \<Rightarrow> if s \<noteq> [] then Some s else b)"

text \<open>\<open>values.get("Company Name") or values.get("Company") or values.get("Employer") or ""\<close>.
  The last operand is a string, so the result is one.\<close>

definition company_name_of :: "value_set \<Rightarrow> string" where
  "company_name_of vals =
     (case py_or (py_or (py_or (map_of vals ''Company Name'') (map_of vals ''Company''))
                    (map_of vals ''Employer'')) (Some [])
      of None \<Rightarrow> [] | Some s \<Rightarrow> s)"

section \<open>The placeholder pattern (\<open>PLACEHOLDER_PATTERN\<close>, line 15)\<close>

text \<open>
  The pattern is \<^verbatim>\<open>\[([^\]]+)\]\<close>: an opening bracket, one or more characters other
  than the closing bracket (captured), a closing bracket. The class \<^verbatim>\<open>[^\]]\<close> also
  takes the opening bracket and the newline. The quantifier is greedy and what follows
  it is the closing bracket, so an attempt at one position succeeds exactly when the
  longest run of characters other than the closing bracket is non-empty and is
  followed by one. \<open>match_here\<close> is the attempt at the head of a string: the captured
  group and the text after the match.
\<close>

definition match_here :: "string \<Rightarrow> (string \<times> string) option" where
  "match_here s =
     (case s of
        [] \<Rightarrow> None
      | c # cs \<Rightarrow>
          if c = LBRACKET
          then (let name = takeWhile (\<lambda>x. x \<noteq> RBRACKET) cs;
                    rest = dropWhile (\<lambda>x. x \<noteq> RBRACKET) cs
                in if name \<noteq> [] \<and> rest \<noteq> [] then Some (name, tl rest) else None)
          else None)"

lemma match_here_shorter: "match_here s = Some (name, rest) \<Longrightarrow> length rest < length s"
proof -
  assume m: "match_here s = Some (name, rest)"
  then obtain cs where s: "s = LBRACKET # cs" and r: "rest = tl (dropWhile (\<lambda>x. x \<noteq> RBRACKET) cs)"
    by (auto simp: match_here_def Let_def split: list.splits if_splits)
  have "length (dropWhile (\<lambda>x. x \<noteq> RBRACKET) cs) \<le> length cs"
    by (rule length_dropWhile_le)
  then show ?thesis using s r by simp
qed

text \<open>\<open>findall\<close>: the matches from the left, each search resuming after the previous
  match; with one group, the list of the captured groups.\<close>

function pattern_findall :: "string \<Rightarrow> string list" where
  "pattern_findall [] = []"
| "pattern_findall (c # cs) =
     (case match_here (c # cs) of
        Some (name, rest) \<Rightarrow> name # pattern_findall rest
      | None \<Rightarrow> pattern_findall cs)"
  by pat_completeness auto
termination
  by (relation "measure length") (auto dest: match_here_shorter)

text \<open>\<open>search\<close>: is there a match at some position?\<close>

fun pattern_search :: "string \<Rightarrow> bool" where
  "pattern_search [] = False"
| "pattern_search (c # cs) = (match_here (c # cs) \<noteq> None \<or> pattern_search cs)"

section \<open>Documents\<close>

text \<open>
  A document of \<open>python-docx\<close>, as far as the program reads it: the top-level paragraphs
  and the tables; a table is its rows, a row its cells, a cell its paragraphs; a
  paragraph is its runs, and a run has a text and a formatting (of a type \<open>'f\<close> that
  the program never looks into). \<open>paragraph.text\<close> is the run texts joined. The model is
  a tree: every cell is its own object (a table with merged cells, where \<open>row.cells\<close>
  gives one cell several times, is outside it).
\<close>

text \<open>
  The specification speaks of a text with no bracket pair. This predicate follows those
  words: a \<^verbatim>\<open>[\<close> that is followed, anywhere later, by a \<^verbatim>\<open>]\<close>.
\<close>

definition has_bracket_pair :: "string \<Rightarrow> bool" where
  "has_bracket_pair t = (RBRACKET \<in> set (dropWhile (\<lambda>c. c \<noteq> LBRACKET) t))"

record 'f run =
  run_text :: string
  run_format :: 'f

type_synonym 'f para = "'f run list"

record 'f document =
  paragraphs :: "'f para list"
  tables :: "'f para list list list list"

definition para_text :: "'f para \<Rightarrow> string" where
  "para_text para = concat (map run_text para)"

text \<open>The paragraphs in the order both traversals visit them.\<close>

definition all_paragraphs :: "'f document \<Rightarrow> 'f para list" where
  "all_paragraphs doc = paragraphs doc @ concat (concat (concat (tables doc)))"

section \<open>The scanner (\<open>extract_placeholders_from_text\<close>, \<open>extract_placeholders\<close>)\<close>

definition extract_placeholders_from_text :: "string \<Rightarrow> string set" where
  "extract_placeholders_from_text t = set (pattern_findall t)"

definition extract_placeholders :: "'f document \<Rightarrow> string list" where
  "extract_placeholders doc =
     (let placeholders =
            fold (\<lambda>para acc. acc \<union> extract_placeholders_from_text (para_text para))
              (paragraphs doc) {};
          placeholders =
            fold (\<lambda>table acc.
                fold (\<lambda>row acc.
                    fold (\<lambda>cell acc.
                        fold (\<lambda>para acc. acc \<union> extract_placeholders_from_text (para_text para))
                          cell acc)
                      row acc)
                  table acc)
              (tables doc) placeholders
      in sorted_list_of_set placeholders)"

section \<open>The substitutor (\<open>replace_in_paragraph\<close>, \<open>fill_template\<close>)\<close>

text \<open>\<open>bracketed = f"[{placeholder}]"\<close>.\<close>

definition bracketed :: "string \<Rightarrow> string" where
  "bracketed placeholder = LBRACKET # placeholder @ [RBRACKET]"

text \<open>The inner loop over \<open>values.items()\<close> on one run: the text is replaced when it
  holds the bracketed name; the formatting stays.\<close>

definition replace_step :: "string \<times> string \<Rightarrow> string \<Rightarrow> string" where
  "replace_step kv t =
     (if sublist (bracketed (fst kv)) t then py_replace t (bracketed (fst kv)) (snd kv) else t)"

definition replace_in_run :: "value_set \<Rightarrow> 'f run \<Rightarrow> 'f run" where
  "replace_in_run vals r = r\<lparr>run_text := fold replace_step vals (run_text r)\<rparr>"

text \<open>The loop over the runs, without the test before it.\<close>

definition replace_in_runs :: "'f para \<Rightarrow> value_set \<Rightarrow> 'f para" where
  "replace_in_runs para vals = map (replace_in_run vals) para"

text \<open>\<open>replace_in_paragraph\<close>: nothing is done when the pattern has no match in the
  paragraph's full text.\<close>

definition replace_in_paragraph :: "'f para \<Rightarrow> value_set \<Rightarrow> 'f para" where
  "replace_in_paragraph para vals =
     (if \<not> pattern_search (para_text para) then para else replace_in_runs para vals)"

definition fill_template :: "'f document \<Rightarrow> value_set \<Rightarrow> 'f document" where
  "fill_template doc vals =
     doc\<lparr>paragraphs := map (\<lambda>para. replace_in_paragraph para vals) (paragraphs doc),
         tables :=
           map (map (map (map (\<lambda>para. replace_in_paragraph para vals)))) (tables doc)\<rparr>"

section \<open>Numbers and dates as text\<close>

text \<open>\<open>str(n)\<close> for a counter \<open>n \<ge> 0\<close>: the decimal digits, no leading zero.\<close>

definition digit_char :: "nat \<Rightarrow> char" where
  "digit_char d = char_of (48 + d)"

function str_nat :: "nat \<Rightarrow> string" where
  "str_nat n = (if n < 10 then [digit_char n] else str_nat (n div 10) @ [digit_char (n mod 10)])"
  by pat_completeness auto
termination
  by (relation "measure id") auto

declare str_nat.simps [simp del]

text \<open>The number a string of digits stands for; it reads \<open>str_nat\<close> back.\<close>

definition digits_val :: "string \<Rightarrow> nat" where
  "digits_val s = foldl (\<lambda>acc c. 10 * acc + (of_char c - 48)) 0 s"

text \<open>
  The clock is an input: \<open>datetime.now()\<close> is a date (the time of day is not used).
  \<open>strftime("%Y-%m-%d")\<close> writes the year as a decimal number filled with zeros to four
  digits, and the month and the day filled to two.
\<close>

record date =
  year :: nat
  month :: nat
  day :: nat

definition zero_fill :: "nat \<Rightarrow> string \<Rightarrow> string" where
  "zero_fill w s = replicate (w - length s) (CHR ''0'') @ s"

definition strftime_Ymd :: "date \<Rightarrow> string" where
  "strftime_Ymd d =
     zero_fill 4 (str_nat (year d)) @ ''-'' @ zero_fill 2 (str_nat (month d)) @ ''-''
       @ zero_fill 2 (str_nat (day d))"

section \<open>The value collector (\<open>prompt_for_values\<close>)\<close>

text \<open>
  The terminal: the lines still to be read from standard input, and what has been
  written so far, a \<open>print\<close> or the prompt of an \<open>input\<close>. \<open>input\<close> on an exhausted
  standard input raises \<open>EOFError\<close>. The other exceptions of the program: \<open>doc.save\<close>
  and \<open>subprocess.run\<close> may raise, and \<open>Path.rename\<close> raises when its source is
  missing.
\<close>

datatype event = Printed string | Prompted string

datatype exn = EOFError | SaveError | SubprocessError | FileNotFoundError





section \<open>The file system and the export (\<open>save_as_pdf\<close>)\<close>

text \<open>
  A path is a folder and a file name; the two folders the export touches are the
  system's temporary folder and \<open>OUTPUTS_DIR\<close>. The file system maps the paths that
  exist to their contents; it is a finite table.
\<close>

datatype folder = TempDir | OutputsDir

type_synonym path = "folder \<times> string"

type_synonym content = string

type_synonym filesystem = "(path \<times> content) list"

definition path_exists :: "filesystem \<Rightarrow> path \<Rightarrow> bool" where
  "path_exists fs p = (map_of fs p \<noteq> None)"

definition write_file :: "filesystem \<Rightarrow> path \<Rightarrow> content \<Rightarrow> filesystem" where
  "write_file fs p c = AList.update p c fs"

definition remove_file :: "filesystem \<Rightarrow> path \<Rightarrow> filesystem" where
  "remove_file fs p = AList.delete p fs"

text \<open>\<open>src.rename(dst)\<close>: the source must exist; its content moves to the target.\<close>

definition rename_file :: "filesystem \<Rightarrow> path \<Rightarrow> path \<Rightarrow> exn + filesystem" where
  "rename_file fs src dst =
     (case map_of fs src of
        None \<Rightarrow> Inl FileNotFoundError
      | Some c \<Rightarrow> Inr (write_file (remove_file fs src) dst c))"

text \<open>\<open>Path(name).stem\<close>: the name up to its last dot, when that dot is neither the
  first nor the last character; else the whole name.\<close>

definition py_stem :: "string \<Rightarrow> string" where
  "py_stem name =
     (if CHR ''.'' \<in> set name
      then (let i = length name - 1 - length (takeWhile (\<lambda>c. c \<noteq> CHR ''.'') (rev name))
            in if 0 < i \<and> i < length name - 1 then take i name else name)
      else name)"

text \<open>\<open>f"CoverLetter_{safe_company}_{date_str}_{counter}.pdf"\<close>.\<close>

definition numbered_pdf_name :: "string \<Rightarrow> string \<Rightarrow> nat \<Rightarrow> string" where
  "numbered_pdf_name company date_str counter =
     ''CoverLetter_'' @ company @ ''_'' @ date_str @ ''_'' @ str_nat counter @ ''.pdf''"

text \<open>
  The loop of lines 152 to 157 on the pair \<open>(final_pdf_path, counter)\<close>:
  \<open>while final_pdf_path.exists(): pdf_name = ..._{counter}.pdf; counter += 1\<close>. It ends
  because the numbered names are pairwise different and the folder is finite.
\<close>

lemma digit_char_val: "d < 10 \<Longrightarrow> (of_char (digit_char d) :: nat) - 48 = d"
  by (simp add: digit_char_def)

lemma digits_val_str_nat: "digits_val (str_nat n) = n"
proof (induction n rule: str_nat.induct)
  case (1 n)
  show ?case
  proof (cases "n < 10")
    case True
    then show ?thesis by (subst str_nat.simps) (simp add: digits_val_def digit_char_val)
  next
    case False
    then have "digits_val (str_nat (n div 10)) = n div 10" using 1 by simp
    then show ?thesis using False
      by (subst str_nat.simps) (simp add: digits_val_def digit_char_val)
  qed
qed

lemma str_nat_inj: "str_nat a = str_nat b \<Longrightarrow> a = b"
  by (metis digits_val_str_nat)

lemma numbered_pdf_name_inj:
  "numbered_pdf_name company date_str a = numbered_pdf_name company date_str b \<Longrightarrow> a = b"
  by (simp add: numbered_pdf_name_def str_nat_inj)

lemma finite_numbered:
  "finite {c. path_exists fs (OutputsDir, numbered_pdf_name company date_str c)}"
proof -
  have "finite ((\<lambda>c. (OutputsDir, numbered_pdf_name company date_str c)) -` (fst ` set fs))"
    by (rule finite_vimageI) (auto simp: inj_on_def dest: numbered_pdf_name_inj)
  moreover have "{c. path_exists fs (OutputsDir, numbered_pdf_name company date_str c)}
      \<subseteq> (\<lambda>c. (OutputsDir, numbered_pdf_name company date_str c)) -` (fst ` set fs)"
    by (auto simp: path_exists_def dest!: map_of_SomeD) (metis fst_conv image_eqI)
  ultimately show ?thesis by (rule rev_finite_subset)
qed

function free_loop :: "filesystem \<Rightarrow> string \<Rightarrow> string \<Rightarrow> path \<Rightarrow> nat \<Rightarrow> path" where
  "free_loop fs company date_str final_pdf_path counter =
     (if path_exists fs final_pdf_path
      then free_loop fs company date_str
             (OutputsDir, numbered_pdf_name company date_str counter) (counter + 1)
      else final_pdf_path)"
  by pat_completeness auto
termination
proof (relation "measure (\<lambda>(fs, company, date_str, final_pdf_path, counter).
          card {c. counter \<le> c \<and> path_exists fs (OutputsDir, numbered_pdf_name company date_str c)}
          + (if path_exists fs final_pdf_path then 1 else 0))", goal_cases)
  case 1
  show ?case by simp
next
  case (2 fs company date_str final_pdf_path counter)
  let ?P = "\<lambda>c. path_exists fs (OutputsDir, numbered_pdf_name company date_str c)"
  have fin: "finite {c. counter \<le> c \<and> ?P c}"
    by (rule finite_subset[OF _ finite_numbered[of fs company date_str]]) auto
  show ?case
  proof (cases "?P counter")
    case True
    have "counter \<in> {c. counter \<le> c \<and> ?P c}" "counter \<notin> {c. counter + 1 \<le> c \<and> ?P c}"
      using True by auto
    moreover have "{c. counter + 1 \<le> c \<and> ?P c} \<subseteq> {c. counter \<le> c \<and> ?P c}"
      by auto
    ultimately have "{c. counter + 1 \<le> c \<and> ?P c} \<subset> {c. counter \<le> c \<and> ?P c}"
      by blast
    then have "card {c. counter + 1 \<le> c \<and> ?P c} < card {c. counter \<le> c \<and> ?P c}"
      using fin by (rule psubset_card_mono[rotated])
    then show ?thesis using 2 True by simp
  next
    case False
    have "{c. counter + 1 \<le> c \<and> ?P c} = {c. counter \<le> c \<and> ?P c}"
      using False by (auto simp: le_less Suc_le_eq)
    then show ?thesis using 2 False by simp
  qed
qed

declare free_loop.simps [simp del]

text \<open>
  What the export takes from outside: the clock, the random part of the name that
  \<open>NamedTemporaryFile(suffix=".docx")\<close> gives its file (\<open>tmp\<close>, the random part, the
  suffix), whether \<open>doc.save\<close> raises, and what the converter did: it could not be
  run (\<open>subprocess.run\<close> raises), or it exited with a return code and a text on
  standard error, having written a PDF or not. A converter that writes its PDF writes
  it into \<open>OUTPUTS_DIR\<close> under the base name of its input with \<open>.pdf\<close>.
\<close>

datatype save_outcome = SaveOk | SaveRaises

datatype conv_outcome = ConvRaises | ConvExit int string "content option"

record env =
  env_now :: date
  tmp_random :: string
  env_save :: save_outcome
  env_convert :: conv_outcome

record world =
  files :: filesystem
  printed :: "event list"

definition temp_docx_path :: "env \<Rightarrow> path" where
  "temp_docx_path env = (TempDir, ''tmp'' @ tmp_random env @ ''.docx'')"

text \<open>\<open>OUTPUTS_DIR / (Path(temp_docx).stem + ".pdf")\<close>.\<close>

definition temp_pdf_path :: "env \<Rightarrow> path" where
  "temp_pdf_path env = (OutputsDir, py_stem (snd (temp_docx_path env)) @ ''.pdf'')"

text \<open>The state when \<open>subprocess.run\<close> has returned.\<close>

definition after_converter :: "env \<Rightarrow> content option \<Rightarrow> world \<Rightarrow> world" where
  "after_converter env produced w =
     (case produced of
        None \<Rightarrow> w
      | Some pdf \<Rightarrow> w\<lparr>files := write_file (files w) (temp_pdf_path env) pdf\<rparr>)"

text \<open>Lines 146 to 164: the converter has returned code 0.\<close>

definition rename_output :: "env \<Rightarrow> string \<Rightarrow> string \<Rightarrow> world \<Rightarrow> (exn + path option) \<times> world" where
  "rename_output env safe date_str w =
     (let final_pdf_path = (OutputsDir, pdf_name safe date_str);
          final_pdf_path =
            (if path_exists (files w) final_pdf_path
             then free_loop (files w) safe date_str final_pdf_path 1
             else final_pdf_path)
      in if path_exists (files w) (temp_pdf_path env)
         then (case rename_file (files w) (temp_pdf_path env) final_pdf_path of
                 Inl e \<Rightarrow> (Inl e, w)
               | Inr fs \<Rightarrow> (Inr (Some final_pdf_path), w\<lparr>files := fs\<rparr>))
         else (Inr None,
               w\<lparr>printed := printed w @ [Printed (CHR 0x0A # ''Error: PDF was not created.'')]\<rparr>))"

text \<open>The body of the \<open>try\<close>, lines 127 to 164; \<open>doc\<close> is what \<open>doc.save\<close> writes.\<close>

definition try_block ::
  "env \<Rightarrow> content \<Rightarrow> string \<Rightarrow> string \<Rightarrow> world \<Rightarrow> (exn + path option) \<times> world" where
  "try_block env doc safe date_str w =
     (case env_save env of
        SaveRaises \<Rightarrow> (Inl SaveError, w)
      | SaveOk \<Rightarrow>
          (let w = w\<lparr>files := write_file (files w) (temp_docx_path env) doc\<rparr>
           in case env_convert env of
                ConvRaises \<Rightarrow> (Inl SubprocessError, w)
              | ConvExit returncode stderr produced \<Rightarrow>
                  (let w = after_converter env produced w
                   in if returncode \<noteq> 0
                      then (Inr None,
                            w\<lparr>printed := printed w
                                 @ [Printed (CHR 0x0A # ''Error converting to PDF: '' @ stderr)]\<rparr>)
                      else rename_output env safe date_str w)))"

text \<open>\<open>save_as_pdf\<close>: the temporary file is created (empty) before the \<open>try\<close>; the
  \<open>finally\<close> removes it when it exists. The result is the exception raised, or the
  value returned (\<open>None\<close> or the final path), with the state left behind.\<close>

definition save_as_pdf ::
  "env \<Rightarrow> content \<Rightarrow> string \<Rightarrow> world \<Rightarrow> (exn + path option) \<times> world" where
  "save_as_pdf env doc company_name w =
     (let date_str = strftime_Ymd (env_now env);
          safe = safe_company company_name;
          temp_docx = temp_docx_path env;
          w = w\<lparr>files := write_file (files w) temp_docx []\<rparr>;
          (res, w) = try_block env doc safe date_str w
      in (res,
          if path_exists (files w) temp_docx
          then w\<lparr>files := remove_file (files w) temp_docx\<rparr>
          else w))"

text \<open>
  The specification's invariant on a placeholder name: it is non-empty and has no
  \<^verbatim>\<open>]\<close>. A value set maps placeholder names to strings.
\<close>

definition placeholder_name :: "string \<Rightarrow> bool" where
  "placeholder_name name = (name \<noteq> [] \<and> RBRACKET \<notin> set name)"

text \<open>
  The text that the pattern passes before it finds a field, read from the left: a character
  other than \<^verbatim>\<open>[\<close>; a \<^verbatim>\<open>[\<close> that is directly followed by \<^verbatim>\<open>]\<close> (no name
  between them); or a whole field \<^verbatim>\<open>[x]\<close>, which is matched as one piece. The specification
  calls a field \<open>a substring enclosed in a single pair of square brackets\<close>; this says where
  such a substring stands so that it is a match of its own.
\<close>

inductive skipped :: "string \<Rightarrow> bool" where
  skipped_Nil: "skipped []"
| skipped_char: "c \<noteq> LBRACKET \<Longrightarrow> skipped s \<Longrightarrow> skipped (c # s)"
| skipped_open: "skipped (RBRACKET # s) \<Longrightarrow> skipped (LBRACKET # RBRACKET # s)"
| skipped_field: "placeholder_name x \<Longrightarrow> skipped s \<Longrightarrow> skipped (bracketed x @ s)"

text \<open>
  The state when \<open>subprocess.run\<close> has returned: the temporary file was created, the
  document saved into it, and the converter has written its PDF or not.
\<close>

definition converter_returned :: "env \<Rightarrow> content \<Rightarrow> content option \<Rightarrow> world \<Rightarrow> world" where
  "converter_returned env doc produced w =
     after_converter env produced
       (w\<lparr>files := write_file (write_file (files w) (temp_docx_path env) []) (temp_docx_path env) doc\<rparr>)"

text \<open>
  The final path that lines 149 to 157 choose, as a function of the folder.
\<close>

definition chosen_path :: "filesystem \<Rightarrow> string \<Rightarrow> string \<Rightarrow> path" where
  "chosen_path fs safe date_str =
     (if path_exists fs (OutputsDir, pdf_name safe date_str)
      then free_loop fs safe date_str (OutputsDir, pdf_name safe date_str) 1
      else (OutputsDir, pdf_name safe date_str))"




section \<open>Sanitization and the company name\<close>

lemma replace_from_single: "replace_from [c] [] s = filter (\<lambda>x. x \<noteq> c) s"
  by (induction s) auto

lemma sanitize_fold:
  "fold (\<lambda>char name. py_replace name [char] []) cs name = filter (\<lambda>x. x \<notin> set cs) name"
proof (induction cs arbitrary: name)
  case Nil
  then show ?case by simp
next
  case (Cons c cs)
  have "filter (\<lambda>x. x \<notin> set cs) (filter (\<lambda>x. x \<noteq> c) name) = filter (\<lambda>x. x \<notin> set (c # cs)) name"
    by (induction name) auto
  then show ?case using Cons by (simp add: py_replace_def replace_from_single)
qed

lemma sanitize_filename_eq:
  "sanitize_filename name = py_strip (filter (\<lambda>x. x \<notin> set invalid_chars) name)"
  by (simp add: sanitize_filename_def sanitize_fold)

lemma set_py_strip: "set (py_strip s) \<subseteq> set s"
proof -
  have "set (py_strip s) \<subseteq> set (dropWhile py_isspace s)"
    unfolding py_strip_def by (metis set_dropWhileD set_rev subsetI)
  also have "\<dots> \<subseteq> set s" by (meson set_dropWhileD subsetI)
  finally show ?thesis .
qed

lemma sanitize_no_invalid: "c \<in> set invalid_chars \<Longrightarrow> c \<notin> set (sanitize_filename name)"
  using set_py_strip[of "filter (\<lambda>x. x \<notin> set invalid_chars) name"]
  by (auto simp: sanitize_filename_eq)

text \<open>
  C1. Sanitizing removes every character of \<open>invalid_chars\<close> and trims
  (\<open>sanitize_filename_eq\<close>, \<open>sanitize_no_invalid\<close>), and the empty name becomes
  \<open>Unknown\<close>. The claim also says that a name made only of invalid characters, such
  as \<open>???\<close>, becomes \<open>Unknown\<close> in the output filename. The code tests the name before
  it is sanitized: \<open>???\<close> is a non-empty string, its sanitized form is empty, and the
  filename gets an empty company part.
\<close>

theorem safe_company_all_invalid:
  "safe_company ''???'' = [] \<and>
   pdf_name (safe_company ''???'') ''2024-01-01'' = ''CoverLetter__2024-01-01.pdf''"
  by (simp add: safe_company_def sanitize_filename_eq invalid_chars_def py_strip_def pdf_name_def)

text \<open>
  C10. The company name passed to the export is the value of the first of the keys
  \<open>Company Name\<close>, \<open>Company\<close>, \<open>Employer\<close> whose value is a non-empty string (a missing
  key and an empty value both pass to the next key); when none has one it is the
  empty string, and the filename's company part is then \<open>Unknown\<close>.
\<close>

theorem company_name_first_nonempty:
  "(map_of vals ''Company Name'' = Some v \<and> v \<noteq> [] \<longrightarrow> company_name_of vals = v) \<and>
   (map_of vals ''Company Name'' \<in> {None, Some []} \<and> map_of vals ''Company'' = Some v \<and> v \<noteq> []
      \<longrightarrow> company_name_of vals = v) \<and>
   (map_of vals ''Company Name'' \<in> {None, Some []} \<and> map_of vals ''Company'' \<in> {None, Some []}
      \<and> map_of vals ''Employer'' = Some v \<and> v \<noteq> [] \<longrightarrow> company_name_of vals = v) \<and>
   (map_of vals ''Company Name'' \<in> {None, Some []} \<and> map_of vals ''Company'' \<in> {None, Some []}
      \<and> map_of vals ''Employer'' \<in> {None, Some []}
      \<longrightarrow> company_name_of vals = [] \<and>
          pdf_name (safe_company (company_name_of vals)) date_str
            = ''CoverLetter_Unknown_'' @ date_str @ ''.pdf'')"
  by (auto simp: company_name_of_def py_or_def safe_company_def pdf_name_def split: option.splits)

theorem company_name_first_nonempty_witness:
  "company_name_of [(''Company'', ''''), (''Date'', ''2024-01-01''), (''Employer'', ''Initech'')]
     = ''Initech'' \<and>
   company_name_of [(''Company'', ''Globex''), (''Employer'', ''Initech'')] = ''Globex'' \<and>
   company_name_of [(''Company'', ''Globex''), (''Company Name'', ''Acme'')] = ''Acme'' \<and>
   company_name_of [(''Company'', ''''), (''Role'', ''Engineer'')] = [] \<and>
   pdf_name (safe_company (company_name_of [(''Company'', ''''), (''Role'', ''Engineer'')]))
     ''2024-01-01'' = ''CoverLetter_Unknown_2024-01-01.pdf''"
  using company_name_first_nonempty
          [of "[(''Company'', ''''), (''Date'', ''2024-01-01''), (''Employer'', ''Initech'')]"
              "''Initech''"]
        company_name_first_nonempty
          [of "[(''Company'', ''Globex''), (''Employer'', ''Initech'')]" "''Globex''"]
        company_name_first_nonempty
          [of "[(''Company'', ''Globex''), (''Company Name'', ''Acme'')]" "''Acme''"]
        company_name_first_nonempty
          [of "[(''Company'', ''''), (''Role'', ''Engineer'')]" "[]" "''2024-01-01''"]
  by (simp add: safe_company_def pdf_name_def)

section \<open>The placeholder scanner\<close>

lemma match_here_SomeD:
  assumes "match_here s = Some (name, rest)"
  shows "s = bracketed name @ rest \<and> name \<noteq> [] \<and> RBRACKET \<notin> set name"
proof -
  let ?P = "\<lambda>x. x \<noteq> RBRACKET"
  from assms obtain cs where s: "s = LBRACKET # cs" and n: "name = takeWhile ?P cs"
    and ne: "name \<noteq> []" and d: "dropWhile ?P cs \<noteq> []" and r: "rest = tl (dropWhile ?P cs)"
    by (auto simp: match_here_def Let_def split: list.splits if_splits)
  from d have "hd (dropWhile ?P cs) = RBRACKET" using hd_dropWhile[of ?P cs] by auto
  with d r have "dropWhile ?P cs = RBRACKET # rest" by (cases "dropWhile ?P cs") auto
  then have "cs = name @ RBRACKET # rest" using n takeWhile_dropWhile_id[of ?P cs] by simp
  moreover have "RBRACKET \<notin> set name" using n by (auto dest: set_takeWhileD)
  ultimately show ?thesis using s ne by (simp add: bracketed_def)
qed

lemma findall_names:
  "name \<in> set (pattern_findall s) \<Longrightarrow> name \<noteq> [] \<and> RBRACKET \<notin> set name \<and> sublist (bracketed name) s"
proof (induction s rule: pattern_findall.induct)
  case 1
  then show ?case by simp
next
  case (2 c cs)
  show ?case
  proof (cases "match_here (c # cs)")
    case None
    with "2.IH"(1) "2.prems" have "name \<noteq> [] \<and> RBRACKET \<notin> set name \<and> sublist (bracketed name) cs" by simp
    then show ?thesis by (auto simp: sublist_Cons_right)
  next
    case (Some m)
    obtain n rest where m: "m = (n, rest)" by (cases m)
    from Some m have eq: "c # cs = bracketed n @ rest" and n: "n \<noteq> []" "RBRACKET \<notin> set n"
      using match_here_SomeD by blast+
    from "2.prems" Some m have "name = n \<or> name \<in> set (pattern_findall rest)" by simp
    then show ?thesis
    proof
      assume "name = n"
      then show ?thesis using eq n by (metis sublist_append_rightI)
    next
      assume "name \<in> set (pattern_findall rest)"
      then have "name \<noteq> [] \<and> RBRACKET \<notin> set name \<and> sublist (bracketed name) rest"
        using "2.IH"(2)[OF Some m[symmetric]] by simp
      then show ?thesis using eq by (metis sublist_order.order_trans sublist_append_leftI)
    qed
  qed
qed

lemma dropWhile_keeps_later:
  "x \<in> set r \<Longrightarrow> x \<in> set (dropWhile (\<lambda>c. c \<noteq> y) (ps @ y # r))"
  by (induction ps) auto

lemma sublist_bracketed_pair:
  assumes "sublist (bracketed name) t"
  shows "has_bracket_pair t"
proof -
  from assms obtain ps ss where t: "t = ps @ LBRACKET # (name @ RBRACKET # ss)"
    by (auto simp: sublist_def bracketed_def)
  show ?thesis unfolding has_bracket_pair_def t
    by (rule dropWhile_keeps_later) simp
qed

lemma fold_union:
  "fold (\<lambda>x acc. acc \<union> f x) xs A = A \<union> (\<Union>x\<in>set xs. f x)"
  by (induction xs arbitrary: A) auto

lemma fold_fold_union:
  "fold (\<lambda>xs acc. fold (\<lambda>x acc. acc \<union> f x) xs acc) xss A = A \<union> (\<Union>xs\<in>set xss. \<Union>x\<in>set xs. f x)"
  by (induction xss arbitrary: A) (auto simp: fold_union)

lemma placeholders_set:
  "extract_placeholders doc =
     sorted_list_of_set (\<Union>para\<in>set (all_paragraphs doc). extract_placeholders_from_text (para_text para))"
proof -
  let ?f = "\<lambda>para. extract_placeholders_from_text (para_text para)"
  have cell: "\<And>cell acc. fold (\<lambda>para acc. acc \<union> ?f para) cell acc = acc \<union> (\<Union>p\<in>set cell. ?f p)"
    by (rule fold_union)
  have row: "\<And>row acc. fold (\<lambda>cell acc. fold (\<lambda>para acc. acc \<union> ?f para) cell acc) row acc
      = acc \<union> (\<Union>p\<in>set (concat row). ?f p)"
    by (simp add: fold_fold_union)
  have table: "\<And>table acc. fold (\<lambda>row acc. fold (\<lambda>cell acc. fold (\<lambda>para acc. acc \<union> ?f para) cell acc) row acc) table acc
      = acc \<union> (\<Union>p\<in>set (concat (concat table)). ?f p)"
    unfolding row using fold_union[where f = "\<lambda>row. \<Union>p\<in>set (concat row). ?f p"] by simp
  have tabs: "\<And>tabs acc. fold (\<lambda>table acc. fold (\<lambda>row acc. fold (\<lambda>cell acc. fold (\<lambda>para acc. acc \<union> ?f para) cell acc) row acc) table acc) tabs acc
      = acc \<union> (\<Union>p\<in>set (concat (concat (concat tabs))). ?f p)"
    unfolding table using fold_union[where f = "\<lambda>table. \<Union>p\<in>set (concat (concat table)). ?f p"] by simp
  show ?thesis
    unfolding extract_placeholders_def Let_def tabs cell all_paragraphs_def
    by (simp add: Un_commute)
qed


lemma finite_placeholders:
  "finite (\<Union>para\<in>set (all_paragraphs doc). extract_placeholders_from_text (para_text para))"
  by (simp add: extract_placeholders_from_text_def)

lemma match_here_bracketed:
  "placeholder_name name \<Longrightarrow> match_here (bracketed name @ rest) = Some (name, rest)"
  by (simp add: match_here_def bracketed_def placeholder_name_def takeWhile_append
      dropWhile_append3 takeWhile_tail dropWhile_append)

lemma match_here_not_open: "c \<noteq> LBRACKET \<Longrightarrow> match_here (c # s) = None"
  by (simp add: match_here_def)

lemma match_here_empty_name: "match_here (LBRACKET # RBRACKET # s) = None"
  by (simp add: match_here_def)

lemma findall_complete:
  assumes "skipped pre" "placeholder_name name"
  shows "name \<in> set (pattern_findall (pre @ bracketed name @ post))"
  using assms(1)
proof (induction rule: skipped.induct)
  case skipped_Nil
  show ?case
  proof -
    obtain c cs where b: "bracketed name @ post = c # cs" by (simp add: bracketed_def)
    have "match_here (c # cs) = Some (name, post)"
      using match_here_bracketed[OF assms(2), of post] b by simp
    then show ?thesis using b by simp
  qed
next
  case (skipped_char c s)
  then show ?case by (simp add: match_here_not_open)
next
  case (skipped_open s)
  then show ?case by (simp add: match_here_empty_name)
next
  case (skipped_field x s)
  obtain c cs where b: "bracketed x @ s @ bracketed name @ post = c # cs"
    by (simp add: bracketed_def)
  have "match_here (c # cs) = Some (x, s @ bracketed name @ post)"
    using match_here_bracketed[OF skipped_field(1), of "s @ bracketed name @ post"] b by simp
  then show ?case using b skipped_field by simp
qed

lemma findall_no_close: "RBRACKET \<notin> set s \<Longrightarrow> pattern_findall s = []"
proof (rule ccontr)
  assume a: "RBRACKET \<notin> set s" and "pattern_findall s \<noteq> []"
  then obtain name where "name \<in> set (pattern_findall s)"
    by (cases "pattern_findall s") auto
  from findall_names[OF this] have "sublist (bracketed name) s" by simp
  then have "set (bracketed name) \<subseteq> set s" by (rule set_mono_sublist)
  with a show False by (auto simp: bracketed_def)
qed

lemma findall_position:
  "name \<in> set (pattern_findall s) \<Longrightarrow>
     \<exists>pre post. skipped pre \<and> s = pre @ bracketed name @ post"
proof (induction s rule: pattern_findall.induct)
  case 1
  then show ?case by simp
next
  case (2 c cs)
  show ?case
  proof (cases "match_here (c # cs)")
    case None
    with "2.prems" have n: "name \<in> set (pattern_findall cs)" by simp
    from "2.IH"(1)[OF None n] obtain pre post
      where pre: "skipped pre" and cs: "cs = pre @ bracketed name @ post" by blast
    have "skipped (c # pre)"
    proof (cases "c = LBRACKET")
      case False
      then show ?thesis using pre by (rule skipped_char)
    next
      case True
      have "RBRACKET \<in> set cs"
      proof (rule ccontr)
        assume "RBRACKET \<notin> set cs"
        then have "pattern_findall cs = []" by (rule findall_no_close)
        with n show False by simp
      qed
      then have d: "dropWhile (\<lambda>x. x \<noteq> RBRACKET) cs \<noteq> []" by simp
      with None True have "takeWhile (\<lambda>x. x \<noteq> RBRACKET) cs = []"
        by (simp add: match_here_def Let_def split: if_splits)
      then have "cs \<noteq> [] \<and> hd cs = RBRACKET" using d
        by (cases cs) (auto split: if_splits)
      then obtain cs' where cs': "cs = RBRACKET # cs'" by (cases cs) auto
      have "pre \<noteq> []"
      proof
        assume "pre = []"
        with cs cs' show False by (simp add: bracketed_def LBRACKET_def RBRACKET_def)
      qed
      then obtain pre' where pre': "pre = RBRACKET # pre'"
        using cs cs' by (cases pre) auto
      with pre have "skipped (LBRACKET # RBRACKET # pre')" by (simp add: skipped_open)
      with True pre' show ?thesis by simp
    qed
    with cs show ?thesis by (metis append_Cons)
  next
    case (Some m)
    obtain x rest where m: "m = (x, rest)" by (cases m)
    from match_here_SomeD[OF Some[unfolded m]]
    have s: "c # cs = bracketed x @ rest" and px: "placeholder_name x"
      by (simp_all add: placeholder_name_def)
    from "2.prems" Some m have "name = x \<or> name \<in> set (pattern_findall rest)" by auto
    then show ?thesis
    proof
      assume "name = x"
      with s have "c # cs = [] @ bracketed name @ rest" by simp
      with skipped_Nil show ?thesis by blast
    next
      assume "name \<in> set (pattern_findall rest)"
      from "2.IH"(2)[OF Some m[symmetric] this] obtain pre post
        where pre: "skipped pre" and r: "rest = pre @ bracketed name @ post" by blast
      from px pre have "skipped (bracketed x @ pre)" by (rule skipped_field)
      moreover have "c # cs = (bracketed x @ pre) @ bracketed name @ post" using s r by simp
      ultimately show ?thesis by blast
    qed
  qed
qed

lemma skipped_no_open: "LBRACKET \<notin> set pre \<Longrightarrow> skipped pre"
  by (induction pre) (auto intro: skipped.intros)

lemma findall_iff:
  "name \<in> set (pattern_findall s) \<longleftrightarrow>
     placeholder_name name \<and> (\<exists>pre post. skipped pre \<and> s = pre @ bracketed name @ post)"
  using findall_complete findall_position findall_names
  unfolding placeholder_name_def by blast

text \<open>
  C3. The placeholder scanner returns the names found in the body paragraphs and in the
  paragraphs of every table cell, sorted ascending and without duplicates. A name is returned
  exactly when it is a placeholder name (non-empty, without \<^verbatim>\<open>]\<close>) and some paragraph's
  text is \<open>pre @ [name] @ post\<close> with \<open>pre\<close> a text the pattern passes; in particular every
  \<^verbatim>\<open>[name]\<close> that stands after a text without \<^verbatim>\<open>[\<close> is returned. Every returned
  name is non-empty, contains no \<^verbatim>\<open>]\<close>, and occurs between brackets in the text of
  some paragraph. A document in which no paragraph has a \<^verbatim>\<open>[\<close> followed later by a
  \<^verbatim>\<open>]\<close> yields the empty list.
\<close>

theorem extract_placeholders_sorted_distinct:
  "sorted (extract_placeholders doc) \<and> distinct (extract_placeholders doc) \<and>
   set (extract_placeholders doc) =
     (\<Union>para\<in>set (paragraphs doc)
          \<union> (\<Union>table\<in>set (tables doc). \<Union>row\<in>set table. \<Union>cell\<in>set row. set cell).
        extract_placeholders_from_text (para_text para)) \<and>
   (\<forall>name. name \<in> set (extract_placeholders doc) \<longleftrightarrow>
      placeholder_name name \<and>
      (\<exists>para\<in>set (paragraphs doc)
          \<union> (\<Union>table\<in>set (tables doc). \<Union>row\<in>set table. \<Union>cell\<in>set row. set cell).
         \<exists>pre post. skipped pre \<and> para_text para = pre @ bracketed name @ post)) \<and>
   (\<forall>para\<in>set (paragraphs doc)
          \<union> (\<Union>table\<in>set (tables doc). \<Union>row\<in>set table. \<Union>cell\<in>set row. set cell).
      \<forall>pre name post.
        para_text para = pre @ bracketed name @ post \<and> placeholder_name name \<and>
        LBRACKET \<notin> set pre
        \<longrightarrow> name \<in> set (extract_placeholders doc)) \<and>
   (\<forall>name\<in>set (extract_placeholders doc).
      name \<noteq> [] \<and> RBRACKET \<notin> set name \<and>
      (\<exists>para\<in>set (all_paragraphs doc). sublist (bracketed name) (para_text para))) \<and>
   ((\<forall>para\<in>set (all_paragraphs doc). \<not> has_bracket_pair (para_text para))
      \<longrightarrow> extract_placeholders doc = [])"
proof -
  let ?S = "\<Union>para\<in>set (all_paragraphs doc). extract_placeholders_from_text (para_text para)"
  have eq: "extract_placeholders doc = sorted_list_of_set ?S" by (rule placeholders_set)
  have fin: "finite ?S" by (rule finite_placeholders)
  have set_eq: "set (extract_placeholders doc) = ?S" using fin by (simp add: eq)
  have srt: "sorted (extract_placeholders doc)" unfolding eq by (rule sorted_sorted_list_of_set)
  have dst: "distinct (extract_placeholders doc)" unfolding eq by (rule distinct_sorted_list_of_set)
  have where_from: "set (all_paragraphs doc) =
      set (paragraphs doc)
        \<union> (\<Union>table\<in>set (tables doc). \<Union>row\<in>set table. \<Union>cell\<in>set row. set cell)"
    by (auto simp: all_paragraphs_def)
  have names: "\<forall>name\<in>set (extract_placeholders doc).
      name \<noteq> [] \<and> RBRACKET \<notin> set name \<and>
      (\<exists>para\<in>set (all_paragraphs doc). sublist (bracketed name) (para_text para))"
  proof
    fix name assume "name \<in> set (extract_placeholders doc)"
    then obtain para where p: "para \<in> set (all_paragraphs doc)"
      and n: "name \<in> set (pattern_findall (para_text para))"
      unfolding set_eq by (auto simp: extract_placeholders_from_text_def)
    from findall_names[OF n] p
    show "name \<noteq> [] \<and> RBRACKET \<notin> set name \<and>
      (\<exists>para\<in>set (all_paragraphs doc). sublist (bracketed name) (para_text para))"
      by blast
  qed
  have none: "(\<forall>para\<in>set (all_paragraphs doc). \<not> has_bracket_pair (para_text para))
      \<longrightarrow> extract_placeholders doc = []"
  proof
    assume h: "\<forall>para\<in>set (all_paragraphs doc). \<not> has_bracket_pair (para_text para)"
    show "extract_placeholders doc = []"
    proof (cases "extract_placeholders doc")
      case Nil
      then show ?thesis .
    next
      case (Cons name rest)
      then have "name \<in> set (extract_placeholders doc)" by simp
      with names obtain para where "para \<in> set (all_paragraphs doc)"
        "sublist (bracketed name) (para_text para)" by blast
      with h sublist_bracketed_pair show ?thesis by blast
    qed
  qed
  have exact: "\<forall>name. name \<in> set (extract_placeholders doc) \<longleftrightarrow>
      placeholder_name name \<and>
      (\<exists>para\<in>set (all_paragraphs doc).
         \<exists>pre post. skipped pre \<and> para_text para = pre @ bracketed name @ post)"
    unfolding set_eq by (auto simp: extract_placeholders_from_text_def findall_iff)
  have found: "\<forall>para\<in>set (all_paragraphs doc). \<forall>pre name post.
        para_text para = pre @ bracketed name @ post \<and> placeholder_name name \<and>
        LBRACKET \<notin> set pre
        \<longrightarrow> name \<in> set (extract_placeholders doc)"
    using exact skipped_no_open by blast
  have set_eq': "set (extract_placeholders doc) =
     (\<Union>para\<in>set (paragraphs doc)
          \<union> (\<Union>table\<in>set (tables doc). \<Union>row\<in>set table. \<Union>cell\<in>set row. set cell).
        extract_placeholders_from_text (para_text para))"
    using set_eq where_from by simp
  show ?thesis
    using srt dst set_eq' exact[unfolded where_from] found[unfolded where_from] names none
    by blast
qed

theorem extract_placeholders_sorted_distinct_witness:
  "extract_placeholders
     \<lparr>paragraphs =
        [[\<lparr>run_text = ''Dear [Role] team at [Comp'', run_format = ()\<rparr>,
          \<lparr>run_text = ''any], on [Date] [Role]'', run_format = ()\<rparr>]],
      tables = [[[[[\<lparr>run_text = ''[Date] [] ]['', run_format = ()\<rparr>]]]]]\<rparr>
     = [''Company'', ''Date'', ''Role''] \<and>
   sorted [''Company'', ''Date'', ''Role''] \<and> distinct [''Company'', ''Date'', ''Role''] \<and>
   ''Role'' \<in> set (extract_placeholders
     \<lparr>paragraphs =
        [[\<lparr>run_text = ''Dear [Role] team at [Comp'', run_format = ()\<rparr>,
          \<lparr>run_text = ''any], on [Date] [Role]'', run_format = ()\<rparr>]],
      tables = [[[[[\<lparr>run_text = ''[Date] [] ]['', run_format = ()\<rparr>]]]]]\<rparr>) \<and>
   extract_placeholders
     \<lparr>paragraphs = [[\<lparr>run_text = ''no fields ] here ['', run_format = ()\<rparr>]],
      tables = [[[[[\<lparr>run_text = ''plain'', run_format = ()\<rparr>]]]]]\<rparr> = []"
proof -
  let ?d0 = "\<lparr>paragraphs =
        [[\<lparr>run_text = ''Dear [Role] team at [Comp'', run_format = ()\<rparr>,
          \<lparr>run_text = ''any], on [Date] [Role]'', run_format = ()\<rparr>]],
      tables = [[[[[\<lparr>run_text = ''[Date] [] ]['', run_format = ()\<rparr>]]]]]\<rparr>"
  let ?d1 = "\<lparr>paragraphs = [[\<lparr>run_text = ''no fields ] here ['', run_format = ()\<rparr>]],
      tables = [[[[[\<lparr>run_text = ''plain'', run_format = ()\<rparr>]]]]]\<rparr>"
  have e: "extract_placeholders ?d0 = [''Company'', ''Date'', ''Role'']" by code_simp
  have h: "\<forall>para\<in>set (all_paragraphs ?d1). \<not> has_bracket_pair (para_text para)"
    by (simp add: all_paragraphs_def has_bracket_pair_def para_text_def LBRACKET_def RBRACKET_def)
  from extract_placeholders_sorted_distinct[of ?d1] h
  have "extract_placeholders ?d1 = []" by blast
  moreover from extract_placeholders_sorted_distinct[of ?d0]
  have "sorted (extract_placeholders ?d0) \<and> distinct (extract_placeholders ?d0)" by blast
  moreover have "''Role'' \<in> set (extract_placeholders ?d0)"
  proof -
    let ?para = "[\<lparr>run_text = ''Dear [Role] team at [Comp'', run_format = ()\<rparr>,
          \<lparr>run_text = ''any], on [Date] [Role]'', run_format = ()\<rparr>]"
    have "?para \<in> set (paragraphs ?d0)
          \<union> (\<Union>table\<in>set (tables ?d0). \<Union>row\<in>set table. \<Union>cell\<in>set row. set cell)"
      by simp
    moreover have "para_text ?para
        = ''Dear '' @ bracketed ''Role'' @ '' team at [Company], on [Date] [Role]''"
      by (simp add: para_text_def bracketed_def LBRACKET_def RBRACKET_def)
    moreover have "placeholder_name ''Role''" "LBRACKET \<notin> set ''Dear ''"
      by (simp_all add: placeholder_name_def LBRACKET_def RBRACKET_def)
    ultimately show ?thesis
      using extract_placeholders_sorted_distinct[of ?d0] by blast
  qed
  ultimately show ?thesis using e by simp
qed

section \<open>The short-circuit of the substitutor\<close>

lemma pattern_search_append: "pattern_search s \<Longrightarrow> pattern_search (ps @ s)"
  by (induction ps) auto

lemma pattern_search_bracketed:
  assumes "placeholder_name name" "sublist (bracketed name) t"
  shows "pattern_search t"
proof -
  from assms(2) obtain ps ss where t: "t = ps @ bracketed name @ ss"
    by (auto simp: sublist_def)
  have "bracketed name @ ss = LBRACKET # (name @ RBRACKET # ss)" by (simp add: bracketed_def)
  with match_here_bracketed[OF assms(1), of ss]
  have "pattern_search (bracketed name @ ss)" by simp
  then show ?thesis unfolding t by (rule pattern_search_append)
qed

lemma fold_replace_step_id:
  "\<forall>kv\<in>set vals. \<not> sublist (bracketed (fst kv)) t \<Longrightarrow> fold replace_step vals t = t"
  by (induction vals) (auto simp: replace_step_def)

lemma sublist_run_text: "r \<in> set para \<Longrightarrow> sublist (run_text r) (para_text para)"
proof (induction para)
  case Nil then show ?case by simp
next
  case (Cons a para)
  show ?case
  proof (cases "r = a")
    case True
    then show ?thesis by (simp add: para_text_def sublist_append_rightI)
  next
    case False
    with Cons have "sublist (run_text r) (para_text para)" by simp
    then have "sublist (run_text r) (run_text a @ para_text para)"
      using sublist_append_leftI sublist_order.order_trans by blast
    then show ?thesis by (simp add: para_text_def)
  qed
qed

text \<open>
  C4. The short-circuit of the substitutor never changes the result: for every paragraph and
  every value set (its keys are placeholder names, so non-empty and without \<^verbatim>\<open>]\<close>),
  \<^const>\<open>replace_in_paragraph\<close>, which skips the paragraph when the pattern is not found in
  its joined text, returns the same runs as the per-run replacement loop run unconditionally.
\<close>

theorem short_circuit_same_result:
  assumes "\<forall>kv\<in>set vals. placeholder_name (fst kv)"
  shows "replace_in_paragraph para vals = replace_in_runs para vals"
proof (cases "pattern_search (para_text para)")
  case True
  then show ?thesis by (simp add: replace_in_paragraph_def)
next
  case False
  have "replace_in_run vals r = r" if r: "r \<in> set para" for r
  proof -
    have "\<forall>kv\<in>set vals. \<not> sublist (bracketed (fst kv)) (run_text r)"
    proof
      fix kv assume kv: "kv \<in> set vals"
      show "\<not> sublist (bracketed (fst kv)) (run_text r)"
      proof
        assume "sublist (bracketed (fst kv)) (run_text r)"
        with sublist_run_text[OF r] have "sublist (bracketed (fst kv)) (para_text para)"
          by (rule sublist_order.order_trans[rotated])
        with assms kv pattern_search_bracketed False show False by blast
      qed
    qed
    then show ?thesis by (simp add: replace_in_run_def fold_replace_step_id)
  qed
  then have "replace_in_runs para vals = para"
    by (simp add: replace_in_runs_def map_idI)
  with False show ?thesis by (simp add: replace_in_paragraph_def)
qed


theorem short_circuit_same_result_witness:
  "replace_in_paragraph
     [\<lparr>run_text = ''Dear [Name'', run_format = ()\<rparr>,
      \<lparr>run_text = ''] at [Company]'', run_format = ()\<rparr>]
     [(''Company'', ''Acme''), (''Name'', ''Ann'')]
   = [\<lparr>run_text = ''Dear [Name'', run_format = ()\<rparr>,
      \<lparr>run_text = ''] at Acme'', run_format = ()\<rparr>] \<and>
   replace_in_paragraph
     [\<lparr>run_text = ''plain ] [ text'', run_format = ()\<rparr>]
     [(''Company'', ''Acme''), (''Name'', ''Ann'')]
   = [\<lparr>run_text = ''plain ] [ text'', run_format = ()\<rparr>]"
proof -
  let ?vals = "[(''Company'', ''Acme''), (''Name'', ''Ann'')]"
  let ?p = "[\<lparr>run_text = ''Dear [Name'', run_format = ()\<rparr>,
      \<lparr>run_text = ''] at [Company]'', run_format = ()\<rparr>]"
  let ?q = "[\<lparr>run_text = ''plain ] [ text'', run_format = ()\<rparr>]"
  have v: "\<forall>kv\<in>set ?vals. placeholder_name (fst kv)"
    by (simp add: placeholder_name_def RBRACKET_def)
  have p: "replace_in_runs ?p ?vals = [\<lparr>run_text = ''Dear [Name'', run_format = ()\<rparr>,
      \<lparr>run_text = ''] at Acme'', run_format = ()\<rparr>]"
    by code_simp
  have q: "replace_in_runs ?q ?vals = ?q"
    by code_simp
  from short_circuit_same_result[OF v, of ?p] short_circuit_same_result[OF v, of ?q] p q
  show ?thesis by simp
qed

text \<open>
  The restriction to placeholder names matters: the pattern needs a non-empty name, so with
  the empty string as a key the loop would rewrite \<^verbatim>\<open>[]\<close> where the short-circuit
  leaves it.
\<close>

lemma short_circuit_needs_placeholder_names:
  "replace_in_paragraph [\<lparr>run_text = ''[]'', run_format = ()\<rparr>] [('''', ''x'')]
     = [\<lparr>run_text = ''[]'', run_format = ()\<rparr>] \<and>
   replace_in_runs [\<lparr>run_text = ''[]'', run_format = ()\<rparr>] [('''', ''x'')]
     = [\<lparr>run_text = ''x'', run_format = ()\<rparr>]"
  by code_simp

section \<open>The export\<close>

lemma map_of_write_file: "map_of (write_file fs p c) = (map_of fs)(p \<mapsto> c)"
  by (simp add: write_file_def update_conv')

lemma map_of_remove_file: "map_of (remove_file fs p) = (map_of fs)(p := None)"
  by (simp add: remove_file_def delete_conv')

lemma path_exists_write_file:
  "path_exists (write_file fs p c) q \<longleftrightarrow> q = p \<or> path_exists fs q"
  by (simp add: path_exists_def map_of_write_file)

lemma path_exists_remove_file:
  "path_exists (remove_file fs p) q \<longleftrightarrow> q \<noteq> p \<and> path_exists fs q"
  by (simp add: path_exists_def map_of_remove_file)

lemma py_stem_hd: "name \<noteq> [] \<Longrightarrow> py_stem name \<noteq> [] \<and> hd (py_stem name) = hd name"
  by (cases name) (auto simp: py_stem_def Let_def take_Cons')

lemma temp_pdf_name_hd: "hd (snd (temp_pdf_path env)) = CHR ''t''"
  using py_stem_hd[of "''tmp'' @ tmp_random env @ ''.docx''"]
  by (simp add: temp_pdf_path_def temp_docx_path_def)

lemma temp_pdf_not_pdf_name: "temp_pdf_path env \<noteq> (OutputsDir, pdf_name safe date_str)"
  using temp_pdf_name_hd[of env] by (auto simp: pdf_name_def)

lemma temp_pdf_not_numbered:
  "temp_pdf_path env \<noteq> (OutputsDir, numbered_pdf_name safe date_str n)"
  using temp_pdf_name_hd[of env] by (auto simp: numbered_pdf_name_def)

lemma temp_docx_not_outputs: "fst p = OutputsDir \<Longrightarrow> p \<noteq> temp_docx_path env"
  by (auto simp: temp_docx_path_def)

lemma temp_pdf_outputs: "fst (temp_pdf_path env) = OutputsDir"
  by (simp add: temp_pdf_path_def)

lemma free_loop_numbered:
  "path_exists fs p \<Longrightarrow>
   \<exists>n\<ge>counter. free_loop fs company date_str p counter
                  = (OutputsDir, numbered_pdf_name company date_str n) \<and>
     \<not> path_exists fs (OutputsDir, numbered_pdf_name company date_str n) \<and>
     (\<forall>c. counter \<le> c \<and> c < n
          \<longrightarrow> path_exists fs (OutputsDir, numbered_pdf_name company date_str c))"
proof (induction fs company date_str p counter rule: free_loop.induct)
  case (1 fs company date_str final_pdf_path counter)
  let ?q = "(OutputsDir, numbered_pdf_name company date_str counter)"
  have step: "free_loop fs company date_str final_pdf_path counter
      = free_loop fs company date_str ?q (counter + 1)"
    using "1.prems" by (subst free_loop.simps) simp
  show ?case
  proof (cases "path_exists fs ?q")
    case False
    then have "free_loop fs company date_str ?q (counter + 1) = ?q"
      by (subst free_loop.simps) simp
    with step False show ?thesis by auto
  next
    case True
    from "1.IH"[OF "1.prems" True] obtain n where n: "counter + 1 \<le> n"
      "free_loop fs company date_str ?q (counter + 1)
         = (OutputsDir, numbered_pdf_name company date_str n)"
      "\<not> path_exists fs (OutputsDir, numbered_pdf_name company date_str n)"
      "\<forall>c. counter + 1 \<le> c \<and> c < n
          \<longrightarrow> path_exists fs (OutputsDir, numbered_pdf_name company date_str c)"
      by blast
    have "\<forall>c. counter \<le> c \<and> c < n
          \<longrightarrow> path_exists fs (OutputsDir, numbered_pdf_name company date_str c)"
    proof (intro allI impI)
      fix c assume c: "counter \<le> c \<and> c < n"
      show "path_exists fs (OutputsDir, numbered_pdf_name company date_str c)"
      proof (cases "c = counter")
        case True
        with \<open>path_exists fs ?q\<close> show ?thesis by simp
      next
        case False
        with c n(4) show ?thesis by simp
      qed
    qed
    with n step show ?thesis by (intro exI[of _ n]) simp
  qed
qed

lemma files_converter_returned:
  "map_of (files (converter_returned env doc produced w)) p =
     (if p = temp_pdf_path env \<and> produced \<noteq> None then produced
      else if p = temp_docx_path env then Some doc
      else map_of (files w) p)"
  by (cases produced)
     (auto simp: converter_returned_def after_converter_def map_of_write_file
        temp_pdf_path_def temp_docx_path_def)

lemma printed_converter_returned:
  "printed (converter_returned env doc produced w) = printed w"
  by (cases produced) (simp_all add: converter_returned_def after_converter_def)

lemma docx_in_converter_returned:
  "path_exists (files (converter_returned env doc produced w)) (temp_docx_path env)"
  by (simp add: path_exists_def files_converter_returned temp_pdf_path_def temp_docx_path_def)

lemma try_block_converted:
  assumes "env_save env = SaveOk" "env_convert env = ConvExit returncode stderr produced"
  shows "try_block env doc safe date_str (w\<lparr>files := write_file (files w) (temp_docx_path env) []\<rparr>) =
     (if returncode \<noteq> 0
      then (Inr None,
            (converter_returned env doc produced w)
              \<lparr>printed := printed (converter_returned env doc produced w)
                 @ [Printed (CHR 0x0A # ''Error converting to PDF: '' @ stderr)]\<rparr>)
      else rename_output env safe date_str (converter_returned env doc produced w))"
  using assms by (simp add: try_block_def Let_def converter_returned_def)

lemma save_as_pdf_converted:
  assumes "env_save env = SaveOk" "env_convert env = ConvExit returncode stderr produced"
  shows "save_as_pdf env doc company_name w =
     (case (if returncode \<noteq> 0
            then (Inr None,
                  (converter_returned env doc produced w)
                    \<lparr>printed := printed (converter_returned env doc produced w)
                       @ [Printed (CHR 0x0A # ''Error converting to PDF: '' @ stderr)]\<rparr>)
            else rename_output env (safe_company company_name) (strftime_Ymd (env_now env))
                   (converter_returned env doc produced w)) of
        (res, w') \<Rightarrow>
          (res, if path_exists (files w') (temp_docx_path env)
                then w'\<lparr>files := remove_file (files w') (temp_docx_path env)\<rparr> else w'))"
  unfolding save_as_pdf_def Let_def try_block_converted[OF assms] by simp

lemma save_as_pdf_nonzero:
  assumes "env_save env = SaveOk" "env_convert env = ConvExit returncode stderr produced"
    "returncode \<noteq> 0"
  shows "save_as_pdf env doc company_name w =
     (Inr None,
      (converter_returned env doc produced w)
        \<lparr>printed := printed w @ [Printed (CHR 0x0A # ''Error converting to PDF: '' @ stderr)],
         files := remove_file (files (converter_returned env doc produced w))
                    (temp_docx_path env)\<rparr>)"
  using assms(3) docx_in_converter_returned[of env doc produced w]
  by (simp add: save_as_pdf_converted[OF assms(1,2)] printed_converter_returned)

lemma save_as_pdf_missing:
  assumes "env_save env = SaveOk" "env_convert env = ConvExit 0 stderr produced"
    "\<not> path_exists (files (converter_returned env doc produced w)) (temp_pdf_path env)"
  shows "save_as_pdf env doc company_name w =
     (Inr None,
      (converter_returned env doc produced w)
        \<lparr>printed := printed w @ [Printed (CHR 0x0A # ''Error: PDF was not created.'')],
         files := remove_file (files (converter_returned env doc produced w))
                    (temp_docx_path env)\<rparr>)"
  using assms(3) docx_in_converter_returned[of env doc produced w]
  by (simp add: save_as_pdf_converted[OF assms(1,2)] rename_output_def Let_def
      printed_converter_returned)

lemma chosen_path_cases:
  "(\<not> path_exists fs (OutputsDir, pdf_name safe date_str) \<and>
      chosen_path fs safe date_str = (OutputsDir, pdf_name safe date_str)) \<or>
   (path_exists fs (OutputsDir, pdf_name safe date_str) \<and>
    (\<exists>n\<ge>1. chosen_path fs safe date_str = (OutputsDir, numbered_pdf_name safe date_str n) \<and>
       \<not> path_exists fs (OutputsDir, numbered_pdf_name safe date_str n) \<and>
       (\<forall>c. 1 \<le> c \<and> c < n
            \<longrightarrow> path_exists fs (OutputsDir, numbered_pdf_name safe date_str c))))"
proof (cases "path_exists fs (OutputsDir, pdf_name safe date_str)")
  case True
  from free_loop_numbered[OF True, of 1 safe date_str] True
  show ?thesis by (simp add: chosen_path_def)
next
  case False
  then show ?thesis by (simp add: chosen_path_def)
qed

lemma chosen_path_free: "\<not> path_exists fs (chosen_path fs safe date_str)"
  using chosen_path_cases[of fs safe date_str] by auto

lemma chosen_path_outputs: "fst (chosen_path fs safe date_str) = OutputsDir"
  using chosen_path_cases[of fs safe date_str] by auto

lemma chosen_path_not_temp: "chosen_path fs safe date_str \<noteq> temp_pdf_path env"
  using chosen_path_cases[of fs safe date_str]
    temp_pdf_not_pdf_name[of env safe date_str] temp_pdf_not_numbered[of env safe date_str]
  by metis

lemma save_as_pdf_renamed:
  assumes "env_save env = SaveOk" "env_convert env = ConvExit 0 stderr produced"
    "map_of (files (converter_returned env doc produced w)) (temp_pdf_path env) = Some pdf"
  shows "save_as_pdf env doc company_name w =
     (Inr (Some (chosen_path (files (converter_returned env doc produced w))
                   (safe_company company_name) (strftime_Ymd (env_now env)))),
      (converter_returned env doc produced w)
      \<lparr>files := remove_file
         (write_file (remove_file (files (converter_returned env doc produced w))
                        (temp_pdf_path env))
            (chosen_path (files (converter_returned env doc produced w))
                   (safe_company company_name) (strftime_Ymd (env_now env))) pdf)
         (temp_docx_path env)\<rparr>)"
proof -
  let ?w1 = "converter_returned env doc produced w"
  let ?F = "chosen_path (files ?w1) (safe_company company_name) (strftime_Ymd (env_now env))"
  have ex: "path_exists (files ?w1) (temp_pdf_path env)"
    using assms(3) by (simp add: path_exists_def)
  have r: "rename_output env (safe_company company_name) (strftime_Ymd (env_now env)) ?w1
      = (Inr (Some ?F),
         ?w1\<lparr>files := write_file (remove_file (files ?w1) (temp_pdf_path env)) ?F pdf\<rparr>)"
    using ex assms(3)
    by (simp add: rename_output_def Let_def rename_file_def chosen_path_def)
  have "temp_docx_path env \<noteq> ?F"
    using temp_docx_not_outputs[OF chosen_path_outputs] by metis
  moreover have "temp_docx_path env \<noteq> temp_pdf_path env"
    by (simp add: temp_docx_path_def temp_pdf_path_def)
  ultimately have "path_exists (write_file (remove_file (files ?w1) (temp_pdf_path env)) ?F pdf)
      (temp_docx_path env)"
    using docx_in_converter_returned[of env doc produced w]
    by (simp add: path_exists_write_file path_exists_remove_file)
  then show ?thesis
    by (simp add: save_as_pdf_converted[OF assms(1,2)] r)
qed

lemma expected_output_exists:
  "path_exists (files (converter_returned env doc produced w)) (temp_pdf_path env)
     \<longleftrightarrow> produced \<noteq> None \<or> path_exists (files w) (temp_pdf_path env)"
  by (auto simp: path_exists_def files_converter_returned temp_pdf_path_def temp_docx_path_def)



lemma save_as_pdf_save_raises:
  assumes "env_save env = SaveRaises"
  shows "save_as_pdf env doc company_name w =
     (Inl SaveError,
      w\<lparr>files := remove_file (write_file (files w) (temp_docx_path env) []) (temp_docx_path env)\<rparr>)"
  using assms
  by (simp add: save_as_pdf_def try_block_def Let_def path_exists_write_file)

lemma save_as_pdf_convert_raises:
  assumes "env_save env = SaveOk" "env_convert env = ConvRaises"
  shows "save_as_pdf env doc company_name w =
     (Inl SubprocessError,
      w\<lparr>files := remove_file
         (write_file (write_file (files w) (temp_docx_path env) []) (temp_docx_path env) doc)
         (temp_docx_path env)\<rparr>)"
  using assms
  by (simp add: save_as_pdf_def try_block_def Let_def path_exists_write_file)

lemma exists_converter_returned:
  "p \<noteq> temp_docx_path env \<Longrightarrow> p \<noteq> temp_pdf_path env \<Longrightarrow>
     map_of (files (converter_returned env doc produced w)) p = map_of (files w) p"
  by (simp add: files_converter_returned)

text \<open>
  C6. Whatever the outcome of saving and converting, and whatever the folder held before,
  the temporary \<^verbatim>\<open>.docx\<close> does not exist when \<^const>\<open>save_as_pdf\<close> has ended. It is
  the \<^verbatim>\<open>finally\<close> clause that removes it: at the end of the \<^verbatim>\<open>try\<close> body, on every
  path, the file is still there.
\<close>

theorem temp_docx_removed:
  "\<not> path_exists (files (snd (save_as_pdf env doc company_name w))) (temp_docx_path env) \<and>
   path_exists
     (files (snd (try_block env doc safe date_str
                    (w\<lparr>files := write_file (files w) (temp_docx_path env) []\<rparr>))))
     (temp_docx_path env)"
proof
  show "\<not> path_exists (files (snd (save_as_pdf env doc company_name w))) (temp_docx_path env)"
    by (simp add: save_as_pdf_def Let_def split_beta path_exists_remove_file)
next
  let ?w0 = "w\<lparr>files := write_file (files w) (temp_docx_path env) []\<rparr>"
  show "path_exists (files (snd (try_block env doc safe date_str ?w0))) (temp_docx_path env)"
  proof (cases "env_save env")
    case SaveRaises
    then show ?thesis by (simp add: try_block_def path_exists_write_file)
  next
    case SaveOk
    show ?thesis
    proof (cases "env_convert env")
      case ConvRaises
      with SaveOk show ?thesis by (simp add: try_block_def Let_def path_exists_write_file)
    next
      case (ConvExit returncode stderr produced)
      let ?w1 = "converter_returned env doc produced w"
      have d: "path_exists (files ?w1) (temp_docx_path env)"
        by (rule docx_in_converter_returned)
      show ?thesis
      proof (cases "returncode \<noteq> 0")
        case True
        with d show ?thesis by (simp add: try_block_converted[OF SaveOk ConvExit])
      next
        case False
        let ?F = "chosen_path (files ?w1) safe date_str"
        have F: "temp_docx_path env \<noteq> ?F" "temp_docx_path env \<noteq> temp_pdf_path env"
          using temp_docx_not_outputs[OF chosen_path_outputs]
          by (metis, simp add: temp_docx_path_def temp_pdf_path_def)
        have "path_exists (files (snd (rename_output env safe date_str ?w1))) (temp_docx_path env)"
          using d F
          by (auto simp: rename_output_def Let_def rename_file_def chosen_path_def
              path_exists_write_file path_exists_remove_file split: option.splits)
        with False show ?thesis by (simp add: try_block_converted[OF SaveOk ConvExit])
      qed
    qed
  qed
qed

text \<open>
  The exit paths of the export: an exception while saving, an exception while starting the
  converter, a return code other than zero, a missing output, and success.
\<close>

lemma export_exit_paths:
  "(env_save env = SaveRaises \<longrightarrow> fst (save_as_pdf env doc company_name w) = Inl SaveError) \<and>
   (env_save env = SaveOk \<and> env_convert env = ConvRaises \<longrightarrow>
      fst (save_as_pdf env doc company_name w) = Inl SubprocessError) \<and>
   (env_save env = SaveOk \<and> env_convert env = ConvExit returncode stderr produced \<and>
    returncode \<noteq> 0 \<longrightarrow> fst (save_as_pdf env doc company_name w) = Inr None) \<and>
   (env_save env = SaveOk \<and> env_convert env = ConvExit 0 stderr produced \<and>
    \<not> path_exists (files (converter_returned env doc produced w)) (temp_pdf_path env) \<longrightarrow>
      fst (save_as_pdf env doc company_name w) = Inr None) \<and>
   (env_save env = SaveOk \<and> env_convert env = ConvExit 0 stderr produced \<and>
    path_exists (files (converter_returned env doc produced w)) (temp_pdf_path env) \<longrightarrow>
      (\<exists>final. fst (save_as_pdf env doc company_name w) = Inr (Some final)))"
  by (auto simp: save_as_pdf_save_raises save_as_pdf_convert_raises save_as_pdf_nonzero
      save_as_pdf_missing save_as_pdf_renamed path_exists_def)

lemma existing_files_kept:
  assumes "path_exists (files w) p" "p \<noteq> temp_docx_path env" "p \<noteq> temp_pdf_path env"
  shows "map_of (files (snd (save_as_pdf env doc company_name w))) p = map_of (files w) p"
proof (cases "env_save env")
  case SaveRaises
  with assms show ?thesis
    by (simp add: save_as_pdf_save_raises map_of_remove_file map_of_write_file)
next
  case SaveOk
  show ?thesis
  proof (cases "env_convert env")
    case ConvRaises
    with SaveOk assms show ?thesis
      by (simp add: save_as_pdf_convert_raises map_of_remove_file map_of_write_file)
  next
    case (ConvExit returncode stderr produced)
    let ?w1 = "converter_returned env doc produced w"
    have p1: "map_of (files ?w1) p = map_of (files w) p"
      using assms by (simp add: exists_converter_returned)
    consider (nonzero) "returncode \<noteq> 0"
      | (missing) "returncode = 0" "\<not> path_exists (files ?w1) (temp_pdf_path env)"
      | (renamed) pdf where "returncode = 0" "map_of (files ?w1) (temp_pdf_path env) = Some pdf"
      by (auto simp: path_exists_def)
    then show ?thesis
    proof cases
      case nonzero
      show ?thesis using assms p1
        by (simp add: save_as_pdf_nonzero[OF SaveOk ConvExit nonzero] map_of_remove_file)
    next
      case missing
      show ?thesis using assms p1
        by (simp add: save_as_pdf_missing[OF SaveOk ConvExit[unfolded missing(1)] missing(2)]
            map_of_remove_file)
    next
      case renamed
      let ?F = "chosen_path (files ?w1) (safe_company company_name) (strftime_Ymd (env_now env))"
      have "path_exists (files ?w1) p" using assms(1) p1 by (simp add: path_exists_def)
      then have "p \<noteq> ?F" using chosen_path_free by metis
      then show ?thesis using assms p1
        by (simp add: save_as_pdf_renamed[OF SaveOk ConvExit[unfolded renamed(1)] renamed(2)]
            map_of_remove_file map_of_write_file)
    qed
  qed
qed

text \<open>
  C5. No file that existed before the export (other than the two temporary names) is changed
  by it, on any path. When the converter has succeeded and its output exists: if the candidate
  name \<^verbatim>\<open>CoverLetter_<company>_<date>.pdf\<close> is free it is the result; if it is taken, the
  result is the name with \<^verbatim>\<open>_n\<close> for the least \<open>n \<ge> 1\<close> whose name is free (all of
  \<^verbatim>\<open>_1\<close> to \<^verbatim>\<open>_(n-1)\<close> are taken); the returned path was free and now holds the
  converter's output.
\<close>

theorem collision_free_name:
  "(\<forall>p. path_exists (files w) p \<and> p \<noteq> temp_docx_path env \<and> p \<noteq> temp_pdf_path env \<longrightarrow>
      map_of (files (snd (save_as_pdf env doc company_name w))) p = map_of (files w) p) \<and>
   (env_save env = SaveOk \<and> env_convert env = ConvExit 0 stderr produced \<and>
    path_exists (files (converter_returned env doc produced w)) (temp_pdf_path env) \<longrightarrow>
      (\<not> path_exists (files w)
           (OutputsDir, pdf_name (safe_company company_name) (strftime_Ymd (env_now env))) \<longrightarrow>
         fst (save_as_pdf env doc company_name w)
           = Inr (Some (OutputsDir,
                 pdf_name (safe_company company_name) (strftime_Ymd (env_now env))))) \<and>
      (path_exists (files w)
           (OutputsDir, pdf_name (safe_company company_name) (strftime_Ymd (env_now env))) \<longrightarrow>
         (\<exists>n\<ge>1.
            fst (save_as_pdf env doc company_name w)
              = Inr (Some (OutputsDir,
                  numbered_pdf_name (safe_company company_name) (strftime_Ymd (env_now env)) n)) \<and>
            \<not> path_exists (files w) (OutputsDir,
                  numbered_pdf_name (safe_company company_name) (strftime_Ymd (env_now env)) n) \<and>
            (\<forall>c. 1 \<le> c \<and> c < n \<longrightarrow>
               path_exists (files w) (OutputsDir,
                  numbered_pdf_name (safe_company company_name) (strftime_Ymd (env_now env)) c)))) \<and>
      (\<exists>final. fst (save_as_pdf env doc company_name w) = Inr (Some final) \<and>
         \<not> path_exists (files w) final \<and>
         map_of (files (snd (save_as_pdf env doc company_name w))) final
           = map_of (files (converter_returned env doc produced w)) (temp_pdf_path env)))"
proof (intro conjI impI allI)
  fix p
  assume "path_exists (files w) p \<and> p \<noteq> temp_docx_path env \<and> p \<noteq> temp_pdf_path env"
  then show "map_of (files (snd (save_as_pdf env doc company_name w))) p = map_of (files w) p"
    by (simp add: existing_files_kept)
next
  let ?safe = "safe_company company_name" and ?d = "strftime_Ymd (env_now env)"
  let ?w1 = "converter_returned env doc produced w"
  let ?F = "chosen_path (files ?w1) ?safe ?d"
  let ?R = "save_as_pdf env doc company_name w"
  assume a: "env_save env = SaveOk \<and> env_convert env = ConvExit 0 stderr produced \<and>
    path_exists (files ?w1) (temp_pdf_path env)"
  then obtain pdf where pdf: "map_of (files ?w1) (temp_pdf_path env) = Some pdf"
    by (auto simp: path_exists_def)
  have R: "?R = (Inr (Some ?F),
        ?w1\<lparr>files := remove_file
           (write_file (remove_file (files ?w1) (temp_pdf_path env)) ?F pdf)
           (temp_docx_path env)\<rparr>)"
    using a pdf by (simp add: save_as_pdf_renamed)
  have same: "path_exists (files ?w1) (OutputsDir, name) = path_exists (files w) (OutputsDir, name)"
    if "(OutputsDir, name) \<noteq> temp_pdf_path env" for name
    using that by (simp add: path_exists_def exists_converter_returned temp_docx_path_def)
  have same_c: "path_exists (files ?w1) (OutputsDir, pdf_name ?safe ?d)
      = path_exists (files w) (OutputsDir, pdf_name ?safe ?d)"
    using temp_pdf_not_pdf_name[of env ?safe ?d] by (intro same) metis
  have same_n: "path_exists (files ?w1) (OutputsDir, numbered_pdf_name ?safe ?d n)
      = path_exists (files w) (OutputsDir, numbered_pdf_name ?safe ?d n)" for n
    using temp_pdf_not_numbered[of env ?safe ?d n] by (intro same) metis
  note cases = chosen_path_cases[of "files ?w1" ?safe ?d, unfolded same_c same_n]
  {
    assume "\<not> path_exists (files w) (OutputsDir, pdf_name ?safe ?d)"
    with cases show "fst ?R = Inr (Some (OutputsDir, pdf_name ?safe ?d))"
      by (simp add: R)
  }
  {
    assume "path_exists (files w) (OutputsDir, pdf_name ?safe ?d)"
    with cases show "\<exists>n\<ge>1.
            fst ?R = Inr (Some (OutputsDir, numbered_pdf_name ?safe ?d n)) \<and>
            \<not> path_exists (files w) (OutputsDir, numbered_pdf_name ?safe ?d n) \<and>
            (\<forall>c. 1 \<le> c \<and> c < n \<longrightarrow>
               path_exists (files w) (OutputsDir, numbered_pdf_name ?safe ?d c))"
      by (simp add: R)
  }
  have F: "?F \<noteq> temp_pdf_path env" "?F \<noteq> temp_docx_path env"
    using chosen_path_not_temp temp_docx_not_outputs[OF chosen_path_outputs] by blast+
  have "\<not> path_exists (files w) ?F"
    using cases by (auto simp: )
  moreover have "map_of (files (snd ?R)) ?F = Some pdf"
    using F by (simp add: R map_of_remove_file map_of_write_file)
  ultimately show "\<exists>final. fst ?R = Inr (Some final) \<and> \<not> path_exists (files w) final \<and>
         map_of (files (snd ?R)) final = map_of (files ?w1) (temp_pdf_path env)"
    using pdf by (intro exI[of _ ?F]) (simp add: R)
qed

theorem collision_free_name_witness:
  "fst (save_as_pdf
          \<lparr>env_now = \<lparr>year = 2024, month = 1, day = 1\<rparr>, tmp_random = ''ab12cd'',
           env_save = SaveOk, env_convert = ConvExit 0 [] (Some ''second'')\<rparr>
          ''letter'' ''Acme''
          \<lparr>files = [((OutputsDir, ''CoverLetter_Acme_2024-01-01.pdf''), ''first'')],
           printed = []\<rparr>)
     = Inr (Some (OutputsDir, ''CoverLetter_Acme_2024-01-01_1.pdf'')) \<and>
   map_of (files (snd (save_as_pdf
          \<lparr>env_now = \<lparr>year = 2024, month = 1, day = 1\<rparr>, tmp_random = ''ab12cd'',
           env_save = SaveOk, env_convert = ConvExit 0 [] (Some ''second'')\<rparr>
          ''letter'' ''Acme''
          \<lparr>files = [((OutputsDir, ''CoverLetter_Acme_2024-01-01.pdf''), ''first'')],
           printed = []\<rparr>)))
      (OutputsDir, ''CoverLetter_Acme_2024-01-01.pdf'') = Some ''first'' \<and>
   map_of (files (snd (save_as_pdf
          \<lparr>env_now = \<lparr>year = 2024, month = 1, day = 1\<rparr>, tmp_random = ''ab12cd'',
           env_save = SaveOk, env_convert = ConvExit 0 [] (Some ''second'')\<rparr>
          ''letter'' ''Acme''
          \<lparr>files = [((OutputsDir, ''CoverLetter_Acme_2024-01-01.pdf''), ''first'')],
           printed = []\<rparr>)))
      (OutputsDir, ''CoverLetter_Acme_2024-01-01_1.pdf'') = Some ''second''"
proof -
  let ?env = "\<lparr>env_now = \<lparr>year = 2024, month = 1, day = 1\<rparr>, tmp_random = ''ab12cd'',
           env_save = SaveOk, env_convert = ConvExit 0 [] (Some ''second'')\<rparr>"
  let ?w = "\<lparr>files = [((OutputsDir, ''CoverLetter_Acme_2024-01-01.pdf''), ''first'')],
           printed = []\<rparr>"
  let ?R = "save_as_pdf ?env ''letter'' ''Acme'' ?w"
  let ?safe = "safe_company ''Acme''" and ?d = "strftime_Ymd (env_now ?env)"
  have cand: "pdf_name ?safe ?d = ''CoverLetter_Acme_2024-01-01.pdf''" by code_simp
  have num1: "numbered_pdf_name ?safe ?d 1 = ''CoverLetter_Acme_2024-01-01_1.pdf''" by code_simp
  have tdocx: "temp_docx_path ?env = (TempDir, ''tmpab12cd.docx'')" by code_simp
  have tpdf: "temp_pdf_path ?env = (OutputsDir, ''tmpab12cd.pdf'')" by code_simp
  have hyp: "env_save ?env = SaveOk \<and> env_convert ?env = ConvExit 0 [] (Some ''second'') \<and>
    path_exists (files (converter_returned ?env ''letter'' (Some ''second'') ?w))
      (temp_pdf_path ?env)"
    by (simp add: expected_output_exists)
  have there: "path_exists (files ?w) (OutputsDir, pdf_name ?safe ?d)"
    unfolding cand by (simp add: path_exists_def)
  have free1: "\<not> path_exists (files ?w) (OutputsDir, numbered_pdf_name ?safe ?d 1)"
    unfolding num1 by (simp add: path_exists_def)
  note inst = collision_free_name[of ?w ?env "''letter''" "''Acme''" "[]" "Some ''second''"]
  from inst hyp there obtain n where n: "1 \<le> n"
    "fst ?R = Inr (Some (OutputsDir, numbered_pdf_name ?safe ?d n))"
    "\<forall>c. 1 \<le> c \<and> c < n \<longrightarrow>
       path_exists (files ?w) (OutputsDir, numbered_pdf_name ?safe ?d c)"
    by blast
  have "n = 1"
  proof (rule ccontr)
    assume "n \<noteq> 1"
    with n(1) have "1 \<le> (1::nat) \<and> 1 < n" by simp
    with n(3) free1 show False by blast
  qed
  with n(2) have r: "fst ?R = Inr (Some (OutputsDir, ''CoverLetter_Acme_2024-01-01_1.pdf''))"
    unfolding num1[symmetric] by blast
  have "path_exists (files ?w) (OutputsDir, ''CoverLetter_Acme_2024-01-01.pdf'') \<and>
      (OutputsDir, ''CoverLetter_Acme_2024-01-01.pdf'') \<noteq> temp_docx_path ?env \<and>
      (OutputsDir, ''CoverLetter_Acme_2024-01-01.pdf'') \<noteq> temp_pdf_path ?env"
    unfolding tdocx tpdf by (simp add: path_exists_def)
  with inst have kept: "map_of (files (snd ?R)) (OutputsDir, ''CoverLetter_Acme_2024-01-01.pdf'')
      = map_of (files ?w) (OutputsDir, ''CoverLetter_Acme_2024-01-01.pdf'')"
    by blast
  from inst hyp obtain final where f: "fst ?R = Inr (Some final)"
    "map_of (files (snd ?R)) final
       = map_of (files (converter_returned ?env ''letter'' (Some ''second'') ?w))
           (temp_pdf_path ?env)"
    by blast
  from f(1) r have "final = (OutputsDir, ''CoverLetter_Acme_2024-01-01_1.pdf'')" by simp
  with f(2) have new: "map_of (files (snd ?R)) (OutputsDir, ''CoverLetter_Acme_2024-01-01_1.pdf'')
      = Some ''second''"
    by (simp add: files_converter_returned)
  from r kept new show ?thesis by simp
qed

section \<open>The value collector\<close>


















lemma py_strip_blank:
  assumes "\<forall>c\<in>set line. py_isspace c"
  shows "py_strip line = []"
proof -
  have "dropWhile py_isspace line = []" using assms by simp
  then show ?thesis by (simp only: py_strip_def rev.simps dropWhile.simps)
qed










end
